theory Spec2Isabelle
  imports Complex_Main
begin

section \<open>Errors\<close>

text \<open>
  The exceptions of Python and numpy that the controllers of
  \<^verbatim>\<open>pytopo/rf/alazar_acquisition.py\<close> can raise. \<open>NotANumber\<close> is no exception:
  it marks the two places where numpy goes on with a NaN (the mean over zero records),
  which the real numbers of this development cannot hold.
\<close>

datatype error =
  ValueError | TypeError | ZeroDivisionError | IndexError | AttributeError | NotANumber

definition and_then :: "error + 'a \<Rightarrow> ('a \<Rightarrow> error + 'b) \<Rightarrow> error + 'b" where
  "and_then m f = (case m of Inl e \<Rightarrow> Inl e | Inr x \<Rightarrow> f x)"

section \<open>Arrays\<close>

text \<open>
  A numpy array is its shape and its elements in row-major (C) order. Integer arrays hold
  natural numbers below \<open>2 ^ bits\<close> of their dtype; float arrays hold reals (the rounding
  of float32 and float64 is not part of the model).
\<close>

record 'a ndarray =
  shape :: "nat list"
  flat :: "'a list"

datatype dtype = UInt8 | UInt16 | UInt32

fun bits :: "dtype \<Rightarrow> nat" where
  "bits UInt8 = 8"
| "bits UInt16 = 16"
| "bits UInt32 = 32"

text \<open>\<^verbatim>\<open>np.zeros(shp, dtype)\<close>: a negative dimension is a ValueError.\<close>

definition zeros :: "int list \<Rightarrow> error + nat ndarray" where
  "zeros shp =
     (if list_ex (\<lambda>d. d < 0) shp then Inl ValueError
      else Inr \<lparr>shape = map nat shp, flat = replicate (prod_list (map nat shp)) 0\<rparr>)"

text \<open>
  \<^verbatim>\<open>a.reshape(newshape)\<close> and \<^verbatim>\<open>a.shape = newshape\<close>. numpy allows one unknown
  (negative) dimension and infers it from the others; it refuses to infer when the
  product of the known dimensions is zero or does not divide the size.
\<close>

definition reshape :: "int list \<Rightarrow> 'a ndarray \<Rightarrow> error + 'a ndarray" where
  "reshape newshape a =
     (let s_original = int (prod_list (shape a));
          s_known = prod_list (filter (\<lambda>d. 0 \<le> d) newshape);
          unknowns = length (filter (\<lambda>d. d < 0) newshape)
      in if 1 < unknowns then Inl ValueError
         else if unknowns = 1 then
           (if s_known = 0 \<or> s_original mod s_known \<noteq> 0 then Inl ValueError
            else Inr \<lparr>shape = map (\<lambda>d. nat (if d < 0 then s_original div s_known else d)) newshape,
                      flat = flat a\<rparr>)
         else if s_original \<noteq> s_known then Inl ValueError
         else Inr \<lparr>shape = map nat newshape, flat = flat a\<rparr>)"

text \<open>\<^verbatim>\<open>a.transpose((1,2,0))\<close>: axis \<open>n\<close> of the result is axis \<open>(1,2,0)[n]\<close> of \<open>a\<close>.\<close>

definition transpose_120 :: "'a ndarray \<Rightarrow> error + 'a ndarray" where
  "transpose_120 a =
     (case shape a of
        [n0, n1, n2] \<Rightarrow>
          Inr \<lparr>shape = [n1, n2, n0],
               flat = concat (map (\<lambda>i. concat (map (\<lambda>j. map (\<lambda>k. flat a ! ((k * n1 + i) * n2 + j))
                         [0..<n0]) [0..<n2])) [0..<n1])\<rparr>
      | _ \<Rightarrow> Inl ValueError)"

text \<open>Multi-indices in row-major order, and numpy's broadcasting of two shapes.\<close>

fun unravel :: "nat list \<Rightarrow> nat \<Rightarrow> nat list" where
  "unravel [] p = []"
| "unravel (d # ds) p = (p div prod_list ds) # unravel ds (p mod prod_list ds)"

fun ravel :: "nat list \<Rightarrow> nat list \<Rightarrow> nat" where
  "ravel (d # ds) (i # js) = i * prod_list ds + ravel ds js"
| "ravel _ _ = 0"

fun bshape_rev :: "nat list \<Rightarrow> nat list \<Rightarrow> error + nat list" where
  "bshape_rev [] ys = Inr ys"
| "bshape_rev (x # xs) [] = Inr (x # xs)"
| "bshape_rev (x # xs) (y # ys) =
     (if x = y \<or> y = 1 then and_then (bshape_rev xs ys) (\<lambda>r. Inr (x # r))
      else if x = 1 then and_then (bshape_rev xs ys) (\<lambda>r. Inr (y # r))
      else Inl ValueError)"

definition broadcast_shapes :: "nat list \<Rightarrow> nat list \<Rightarrow> error + nat list" where
  "broadcast_shapes s1 s2 = and_then (bshape_rev (rev s1) (rev s2)) (\<lambda>r. Inr (rev r))"

text \<open>The position in an operand of shape \<open>s\<close> that position \<open>p\<close> of the broadcast result reads.\<close>

definition bindex :: "nat list \<Rightarrow> nat list \<Rightarrow> nat \<Rightarrow> nat" where
  "bindex rs s p =
     ravel s (map2 (\<lambda>d i. if d = 1 then 0 else i) s (drop (length rs - length s) (unravel rs p)))"

definition broadcast_to :: "nat list \<Rightarrow> 'a ndarray \<Rightarrow> error + 'a list" where
  "broadcast_to target x =
     and_then (broadcast_shapes target (shape x)) (\<lambda>rs.
       if rs = target
       then Inr (map (\<lambda>p. flat x ! bindex target (shape x) p) [0..<prod_list target])
       else Inl ValueError)"

text \<open>An elementwise binary operation of numpy, with broadcasting.\<close>

definition broadcast2 :: "('a \<Rightarrow> 'b \<Rightarrow> 'c) \<Rightarrow> 'a ndarray \<Rightarrow> 'b ndarray \<Rightarrow> error + 'c ndarray" where
  "broadcast2 f a b =
     and_then (broadcast_shapes (shape a) (shape b)) (\<lambda>rs.
       Inr \<lparr>shape = rs,
            flat = map (\<lambda>p. f (flat a ! bindex rs (shape a) p) (flat b ! bindex rs (shape b) p))
                     [0..<prod_list rs]\<rparr>)"

definition map_array :: "('a \<Rightarrow> 'b) \<Rightarrow> 'a ndarray \<Rightarrow> 'b ndarray" where
  "map_array f a = \<lparr>shape = shape a, flat = map f (flat a)\<rparr>"

text \<open>
  \<^verbatim>\<open>data += x\<close> on an unsigned array of \<open>w\<close> bits: \<open>x\<close> is broadcast to the shape of
  \<open>data\<close> (which cannot change) and the sums wrap around.
\<close>

definition iadd :: "nat \<Rightarrow> nat ndarray \<Rightarrow> nat ndarray \<Rightarrow> error + nat ndarray" where
  "iadd w d x =
     and_then (broadcast_to (shape d) x) (\<lambda>vals.
       Inr (d\<lparr>flat := map2 (\<lambda>a b. (a + b) mod 2 ^ w) (flat d) vals\<rparr>))"

text \<open>
  \<^verbatim>\<open>data[k] = x\<close>: Python's index (a negative one counts from the end, one out of range
  is an IndexError); numpy drops leading axes of length 1 of \<open>x\<close> while it has more axes
  than the slot, then broadcasts it to the slot.
\<close>

fun strip_ones :: "nat \<Rightarrow> nat list \<Rightarrow> nat list" where
  "strip_ones r [] = []"
| "strip_ones r (d # ds) = (if r < length (d # ds) \<and> d = 1 then strip_ones r ds else d # ds)"

definition setitem :: "'a ndarray \<Rightarrow> int \<Rightarrow> 'a ndarray \<Rightarrow> error + 'a ndarray" where
  "setitem d k x =
     (case shape d of
        [] \<Rightarrow> Inl IndexError
      | n # slot \<Rightarrow>
          (let j = (if k < 0 then int n + k else k) in
           if j < 0 \<or> int n \<le> j then Inl IndexError
           else and_then (broadcast_to slot (x\<lparr>shape := strip_ones (length slot) (shape x)\<rparr>)) (\<lambda>vals.
             Inr (d\<lparr>flat := take (nat j * prod_list slot) (flat d) @ vals
                            @ drop ((nat j + 1) * prod_list slot) (flat d)\<rparr>))))"

text \<open>
  \<^verbatim>\<open>a[:, ..., :stop, ...]\<close>: the first entries along one axis. \<open>slice_stop\<close> is Python's
  reading of the bound of a slice.
\<close>

definition slice_stop :: "int \<Rightarrow> nat \<Rightarrow> nat" where
  "slice_stop stop n = (if stop < 0 then nat (int n + stop) else min (nat stop) n)"

definition take_axis :: "nat \<Rightarrow> int \<Rightarrow> 'a ndarray \<Rightarrow> error + 'a ndarray" where
  "take_axis ax stop a =
     (if length (shape a) \<le> ax then Inl IndexError
      else
        (let n = shape a ! ax;
             m = slice_stop stop n;
             outer = prod_list (take ax (shape a));
             inner = prod_list (drop (Suc ax) (shape a))
         in Inr \<lparr>shape = (shape a)[ax := m],
                 flat = map (\<lambda>q. flat a ! ((q div (m * inner)) * (n * inner) + q mod (m * inner)))
                          [0..<outer * m * inner]\<rparr>))"

text \<open>
  \<^verbatim>\<open>a.mean(axis=ax)\<close>. The mean over an axis of length 0 is NaN for every element of
  the result.
\<close>

definition mean_axis :: "nat \<Rightarrow> ('a::field) ndarray \<Rightarrow> error + 'a ndarray" where
  "mean_axis ax a =
     (if length (shape a) \<le> ax then Inl ValueError
      else
        (let n = shape a ! ax;
             outer = prod_list (take ax (shape a));
             inner = prod_list (drop (Suc ax) (shape a))
         in if n = 0 \<and> 0 < outer * inner then Inl NotANumber
            else Inr \<lparr>shape = take ax (shape a) @ drop (Suc ax) (shape a),
                      flat = map (\<lambda>q. sum_list (map (\<lambda>k. flat a ! (((q div inner) * n + k) * inner + q mod inner))
                                          [0..<n]) / of_nat n)
                               [0..<outer * inner]\<rparr>))"

section \<open>The controllers\<close>

text \<open>
  The eight working classes of the file (\<open>RawAcqCtl\<close>, \<open>DemodCtl\<close>, \<open>AvgBufCtl\<close>,
  \<open>AvgRecCtl\<close>, \<open>AvgDemodCtl\<close>, \<open>AvgRecDemodCtl\<close>, \<open>AvgIQCtl\<close>, \<open>AvgRecIQCtl\<close>) are
  one record with a tag; a method is one function that follows the tag through the
  inheritance chain. The four hardware parameters, read in the source through getters of
  the card, are fields that no method assigns. An attribute that the source creates only
  in a later method (\<open>buffer_shape\<close>, \<open>period\<close>, ...) or initialises to \<open>None\<close> is an
  option. Of \<open>handling_times\<close> only the length is kept: its entries are wall-clock times.
  The trigger callback (\<open>trigger_func\<close>, \<open>None\<close> after construction) is left out.
\<close>

datatype variant = Raw | Demod | AvgBuf | AvgRec | AvgDemod | AvgRecDemod | AvgIQ | AvgRecIQ

record ctl =
  variant :: variant
  number_of_channels :: nat
  average_buffers :: bool
  nbits :: nat
  model :: string
  buffer_order :: string
  do_allocate_data :: bool
  datadtype :: dtype
  data :: "nat ndarray option"
  tvals :: "real list option"
  buffer_shape :: "nat list option"
  handling_times :: "nat option"
  sample_rate :: real
  samples_per_record :: nat
  records_per_buffer :: nat
  buffers_per_acquisition :: nat
  demod_frq :: "real option"
  period :: "int option"
  demod_samples :: "int option"
  cosarr :: "real ndarray option"
  sinarr :: "real ndarray option"


text \<open>Subclasses of \<open>AvgBufCtl\<close>, of \<open>AvgRecCtl\<close>, and the classes with a \<open>demod_frq\<close>.\<close>

fun is_avg_buf :: "variant \<Rightarrow> bool" where
  "is_avg_buf AvgBuf = True"
| "is_avg_buf AvgDemod = True"
| "is_avg_buf AvgIQ = True"
| "is_avg_buf _ = False"

fun is_avg_rec :: "variant \<Rightarrow> bool" where
  "is_avg_rec AvgRec = True"
| "is_avg_rec AvgRecDemod = True"
| "is_avg_rec AvgRecIQ = True"
| "is_avg_rec _ = False"

fun is_demod :: "variant \<Rightarrow> bool" where
  "is_demod Raw = False"
| "is_demod AvgBuf = False"
| "is_demod AvgRec = False"
| "is_demod _ = True"

text \<open>
  \<open>__init__\<close>. \<open>idn\<close> is the card's answer (bits per sample, model), \<open>None\<close> when the
  controller is built without a card. \<open>fresh\<close> holds the attributes as the constructors
  leave them (the subclasses switch on buffer averaging and widen the dtype of the
  accumulator); \<open>init\<close> adds the ValueError for a bit depth other than 8 and 12.
\<close>

definition fresh ::
  "variant \<Rightarrow> (nat \<times> string) option \<Rightarrow> real \<Rightarrow> nat \<Rightarrow> nat \<Rightarrow> nat \<Rightarrow> ctl" where
  "fresh v idn sr spr rpb bpa =
     (let nb = (case idn of None \<Rightarrow> 12 | Some (b, m) \<Rightarrow> b);
          mdl = (case idn of None \<Rightarrow> ''ATS9360'' | Some (b, m) \<Rightarrow> m)
      in \<lparr>variant = v, number_of_channels = 2, average_buffers = is_avg_buf v,
          nbits = nb, model = mdl,
          buffer_order = (if idn \<noteq> None \<and> mdl = ''ATS9870'' then ''bcrs'' else ''brsc''),
          do_allocate_data = True,
          datadtype = (if is_avg_buf v \<or> is_avg_rec v
                       then (if nb = 8 then UInt16 else UInt32)
                       else (if nb = 8 then UInt8 else UInt16)),
          data = None, tvals = None, buffer_shape = None, handling_times = None,
          sample_rate = sr, samples_per_record = spr, records_per_buffer = rpb,
          buffers_per_acquisition = bpa, demod_frq = None, period = None,
          demod_samples = None, cosarr = None, sinarr = None\<rparr>)"

definition init ::
  "variant \<Rightarrow> (nat \<times> string) option \<Rightarrow> real \<Rightarrow> nat \<Rightarrow> nat \<Rightarrow> nat \<Rightarrow> error + ctl" where
  "init v idn sr spr rpb bpa =
     (if nbits (fresh v idn sr spr rpb bpa) = 8 \<or> nbits (fresh v idn sr spr rpb bpa) = 12
      then Inr (fresh v idn sr spr rpb bpa) else Inl ValueError)"

text \<open>Python's \<open>int(x)\<close> of a float: truncation towards zero.\<close>

definition py_int :: "real \<Rightarrow> int" where
  "py_int x = (if 0 \<le> x then \<lfloor>x\<rfloor> else \<lceil>x\<rceil>)"


text \<open>
  The head of \<open>data_shape\<close> in \<open>DemodCtl\<close>, \<open>AvgDemodCtl\<close> and \<open>AvgRecDemodCtl\<close> (three
  copies in the source, which differ in the number of leading axes of the basis arrays):
  the period, the number of demodulated samples and the cosine and sine arrays. A missing
  \<open>demod_frq\<close> or \<open>tvals\<close> is a TypeError, a zero \<open>demod_frq\<close> or period a
  ZeroDivisionError. \<open>demod_tvals\<close> is read nowhere and left out.
\<close>

definition demod_setup :: "ctl \<Rightarrow> error + (int \<times> ctl)" where
  "demod_setup c =
     (case demod_frq c of
        None \<Rightarrow> Inl TypeError
      | Some f \<Rightarrow>
          if f = 0 then Inl ZeroDivisionError
          else
            (let p = py_int (sample_rate c / f + 0.5) in
             if p = 0 then Inl ZeroDivisionError
             else
               (let ds = int (samples_per_record c) div p;
                    lead = (if variant c = Demod then [1, 1] else [1])
                in case tvals c of
                     None \<Rightarrow> Inl TypeError
                   | Some tv \<Rightarrow>
                       Inr (ds, c\<lparr>period := Some p, demod_samples := Some ds,
                                  cosarr := Some \<lparr>shape = lead @ [length tv, 1],
                                                   flat = map (\<lambda>t. cos (2 * pi * f * t)) tv\<rparr>,
                                  sinarr := Some \<lparr>shape = lead @ [length tv, 1],
                                                   flat = map (\<lambda>t. sin (2 * pi * f * t)) tv\<rparr>\<rparr>))))"

text \<open>\<open>data_shape\<close>: the tuple it returns, and the controller with the attributes it set.\<close>

definition data_shape :: "ctl \<Rightarrow> error + (int list \<times> ctl)" where
  "data_shape c =
     (let B = int (buffers_per_acquisition c); R = int (records_per_buffer c);
          S = int (samples_per_record c); C = int (number_of_channels c)
      in case variant c of
           Raw \<Rightarrow> Inr (if \<not> average_buffers c then [B, R, S, C] else tl [B, R, S, C], c)
         | Demod \<Rightarrow> and_then (demod_setup c) (\<lambda>(ds, c'). Inr ([B, R, ds, C], c'))
         | AvgBuf \<Rightarrow> Inr ([R, S, C], c)
         | AvgRec \<Rightarrow> Inr ([B, S, C], c)
         | AvgDemod \<Rightarrow> and_then (demod_setup c) (\<lambda>(ds, c'). Inr ([R, ds, C], c'))
         | AvgRecDemod \<Rightarrow> and_then (demod_setup c) (\<lambda>(ds, c'). Inr ([R, ds, C], c'))
         | AvgIQ \<Rightarrow> and_then (demod_setup c) (\<lambda>(ds, c'). Inr ([R, C], c'))
         | AvgRecIQ \<Rightarrow> and_then (demod_setup c) (\<lambda>(ds, c'). Inr ([B, C], c')))"

definition data_dims :: "ctl \<Rightarrow> string list" where
  "data_dims c =
     (case variant c of
        Raw \<Rightarrow> (if \<not> average_buffers c then [''buffers'', ''records'', ''samples'', ''channels'']
                else tl [''buffers'', ''records'', ''samples'', ''channels''])
      | Demod \<Rightarrow> [''buffers'', ''records'', ''IF_periods'', ''channels'']
      | AvgBuf \<Rightarrow> [''records'', ''samples'', ''channels'']
      | AvgRec \<Rightarrow> [''buffers'', ''samples'', ''channels'']
      | AvgDemod \<Rightarrow> [''records'', ''IF_periods'', ''channels'']
      | AvgRecDemod \<Rightarrow> [''buffers'', ''IF_periods'', ''channels'']
      | AvgIQ \<Rightarrow> [''records'', ''channels'']
      | AvgRecIQ \<Rightarrow> [''buffers'', ''channels''])"

text \<open>
  \<open>allocate_data\<close>: the time axis, then the accumulator of the shape \<open>data_shape\<close>
  returns. (For a sample rate of 0 numpy fills \<open>tvals\<close> with NaN and infinity where the
  quotient here is 0; no such value is ever read, since \<open>demod_setup\<close> then fails on a
  zero period before it forms the basis arrays.)
\<close>

definition allocate_data :: "ctl \<Rightarrow> error + ctl" where
  "allocate_data c =
     (let c1 = c\<lparr>tvals := Some (map (\<lambda>n. real n / sample_rate c) [0..<samples_per_record c])\<rparr>
      in and_then (data_shape c1) (\<lambda>(shp, c2).
           and_then (zeros shp) (\<lambda>d. Inr (c2\<lparr>data := Some d\<rparr>))))"

text \<open>
  \<open>pre_start_capture\<close>: the method of the base class, then the reallocation of the
  accumulator in \<open>DemodCtl\<close>, \<open>AvgDemodCtl\<close> and \<open>AvgRecDemodCtl\<close>.
\<close>

definition base_pre_start_capture :: "ctl \<Rightarrow> error + ctl" where
  "base_pre_start_capture c =
     and_then
       (if buffer_order c = ''brsc'' then
          Inr (c\<lparr>buffer_shape := Some [records_per_buffer c, samples_per_record c,
                                         number_of_channels c]\<rparr>)
        else if buffer_order c = ''bcrs'' then
          Inr (c\<lparr>buffer_shape := Some [number_of_channels c, records_per_buffer c,
                                         samples_per_record c]\<rparr>)
        else Inl ValueError)
       (\<lambda>c1. and_then (if do_allocate_data c1 then allocate_data c1 else Inr c1)
          (\<lambda>c2. Inr (c2\<lparr>handling_times := Some (buffers_per_acquisition c2)\<rparr>)))"

definition pre_start_capture :: "ctl \<Rightarrow> error + ctl" where
  "pre_start_capture c =
     and_then (base_pre_start_capture c) (\<lambda>c'.
       let B = int (buffers_per_acquisition c'); R = int (records_per_buffer c');
           S = int (samples_per_record c'); C = int (number_of_channels c')
       in if variant c' = Demod then
            and_then (zeros [B, R, S, C]) (\<lambda>d. Inr (c'\<lparr>data := Some d\<rparr>))
          else if variant c' = AvgDemod \<or> variant c' = AvgIQ then
            and_then (zeros [R, S, C]) (\<lambda>d. Inr (c'\<lparr>data := Some d\<rparr>))
          else if variant c' = AvgRecDemod \<or> variant c' = AvgRecIQ then
            and_then (zeros [B, S, C]) (\<lambda>d. Inr (c'\<lparr>data := Some d\<rparr>))
          else Inr c')"

text \<open>
  \<open>process_buffer\<close>: the buffer itself, or, in \<open>AvgRecCtl\<close> and its subclasses, its mean
  over the records (axis 0), a float64 array.
\<close>

datatype pbuf = UIntBuf "nat ndarray" | FloatBuf "real ndarray"

definition process_buffer :: "ctl \<Rightarrow> nat ndarray \<Rightarrow> error + pbuf" where
  "process_buffer c buf =
     (if is_avg_rec (variant c)
      then and_then (mean_axis 0 (map_array real buf)) (\<lambda>m. Inr (FloatBuf m))
      else Inr (UIntBuf buf))"

text \<open>
  The conversion of an assigned array to the unsigned dtype of the accumulator: an integer
  wraps around, a float loses its fraction.
\<close>

fun cast_to :: "dtype \<Rightarrow> pbuf \<Rightarrow> nat ndarray" where
  "cast_to t (UIntBuf a) = map_array (\<lambda>v. v mod 2 ^ bits t) a"
| "cast_to t (FloatBuf a) = map_array (\<lambda>v. nat \<lfloor>v\<rfloor> mod 2 ^ bits t) a"

text \<open>
  \<open>handle_buffer\<close>, the callback for one raw buffer (a flat array) and its number:
  \<open>shape_buffer\<close> is its head (the buffer takes the shape \<open>buffer_shape\<close> and, in the
  order \<open>bcrs\<close>, is transposed), \<open>sum_buffer\<close> is its branch \<^verbatim>\<open>self.data += ...\<close> (taken when there is no buffer
  number or buffers are averaged), \<open>store_buffer\<close> its branch
  \<^verbatim>\<open>self.data[buffer_number] = ...\<close>. An in-place sum with a float64 array is refused by
  numpy (TypeError). The entry of \<open>handling_times\<close> is written last; here only its index
  is checked. An exception leaves the model without a controller, also where the source
  has already changed \<open>data\<close>.
\<close>

definition sum_buffer :: "ctl \<Rightarrow> nat ndarray \<Rightarrow> pbuf \<Rightarrow> error + ctl" where
  "sum_buffer c d pb =
     (case pb of
        FloatBuf x \<Rightarrow> Inl TypeError
      | UIntBuf x \<Rightarrow>
          and_then (iadd (bits (datadtype c)) d x) (\<lambda>d'.
            case handling_times c of
              None \<Rightarrow> Inl AttributeError
            | Some n \<Rightarrow> if n = 0 then Inl IndexError else Inr (c\<lparr>data := Some d'\<rparr>)))"

definition store_buffer :: "ctl \<Rightarrow> nat ndarray \<Rightarrow> int \<Rightarrow> pbuf \<Rightarrow> error + ctl" where
  "store_buffer c d k pb =
     and_then (setitem d k (cast_to (datadtype c) pb)) (\<lambda>d'.
       case handling_times c of
         None \<Rightarrow> Inl AttributeError
       | Some n \<Rightarrow>
           (let j = (if k < 0 then int n + k else k) in
            if j < 0 \<or> int n \<le> j then Inl IndexError else Inr (c\<lparr>data := Some d'\<rparr>)))"

definition shape_buffer :: "ctl \<Rightarrow> nat list \<Rightarrow> error + nat ndarray" where
  "shape_buffer c raw =
     (case buffer_shape c of
        None \<Rightarrow> Inl AttributeError
      | Some bs \<Rightarrow>
          and_then (reshape (map int bs) \<lparr>shape = [length raw], flat = raw\<rparr>) (\<lambda>shaped.
            if buffer_order c = ''bcrs'' then transpose_120 shaped else Inr shaped))"

definition handle_buffer :: "ctl \<Rightarrow> nat list \<Rightarrow> int option \<Rightarrow> error + ctl" where
  "handle_buffer c raw buffer_number =
     and_then (shape_buffer c raw) (\<lambda>buf.
     and_then (process_buffer c buf) (\<lambda>pb.
       case data c of
         None \<Rightarrow> Inl TypeError
       | Some d \<Rightarrow>
           (case buffer_number of
              None \<Rightarrow> sum_buffer c d pb
            | Some k \<Rightarrow> if average_buffers c then sum_buffer c d pb
                        else store_buffer c d k pb)))"

text \<open>
  \<open>post_acquire\<close> of \<open>RawAcqCtl\<close>, \<open>AvgBufCtl\<close> and \<open>AvgRecCtl\<close> (three equal bodies), which
  is also the first half of the one in \<open>DemodCtl\<close>: the accumulator, shifted right by 4
  bits when the card has 12 bits, as floats divided by \<open>2 ^ nbits\<close>, minus 0.5.
\<close>

definition post_acquire_real :: "ctl \<Rightarrow> error + real ndarray" where
  "post_acquire_real c =
     (case data c of
        None \<Rightarrow> Inl (if nbits c = 12 then TypeError else AttributeError)
      | Some d \<Rightarrow>
          Inr (map_array (\<lambda>x. real x / 2 ^ nbits c - 0.5)
                 (if nbits c = 12 then map_array (drop_bit 4) d else d)))"

text \<open>
  One quadrature of the demodulation: the product with twice the basis array, cut to
  \<open>demod_samples * period\<close> samples, reshaped to periods and averaged over each period.
  The sample axis is axis 2 in \<open>DemodCtl\<close> (whose reshape names the number of buffers and
  leaves the records to numpy) and axis 1 in the other classes.
\<close>

definition quadrature :: "ctl \<Rightarrow> int \<Rightarrow> int \<Rightarrow> real ndarray \<Rightarrow> real ndarray \<Rightarrow> error + real ndarray" where
  "quadrature c p ds x basis =
     (let ax = (if variant c = Demod then 2 else 1);
          lead = (if variant c = Demod then [int (buffers_per_acquisition c), - 1] else [- 1])
      in and_then (broadcast2 (\<lambda>v b. v * 2 * b) x basis) (\<lambda>prd.
         and_then (take_axis ax (ds * p) prd) (\<lambda>cut.
         and_then (reshape (lead @ [ds, p, int (number_of_channels c)]) cut) (\<lambda>r.
           mean_axis (Suc ax) r))))"

definition demodulate :: "ctl \<Rightarrow> real ndarray \<Rightarrow> error + complex ndarray" where
  "demodulate c x =
     (case (period c, demod_samples c, cosarr c, sinarr c) of
        (Some p, Some ds, Some ca, Some sa) \<Rightarrow>
          and_then (quadrature c p ds x ca) (\<lambda>re.
          and_then (quadrature c p ds x sa) (\<lambda>im.
            broadcast2 Complex re im))
      | _ \<Rightarrow> Inl AttributeError)"

datatype result = Reals "real ndarray" | Complexes "complex ndarray"

text \<open>\<open>post_acquire\<close> of each class; the IQ classes average the demodulated samples (axis 1).\<close>

definition post_acquire :: "ctl \<Rightarrow> error + result" where
  "post_acquire c =
     (if \<not> is_demod (variant c) then
        and_then (post_acquire_real c) (\<lambda>x. Inr (Reals x))
      else if variant c = AvgIQ \<or> variant c = AvgRecIQ then
        and_then (post_acquire_real c) (\<lambda>x.
        and_then (demodulate c x) (\<lambda>z.
        and_then (mean_axis 1 z) (\<lambda>m. Inr (Complexes m))))
      else
        and_then (post_acquire_real c) (\<lambda>x.
        and_then (demodulate c x) (\<lambda>z. Inr (Complexes z))))"

section \<open>The driver\<close>

text \<open>
  Modelled from the spec: the card's driver, which is not among the sources. Its
  \<open>acquire\<close> "runs the full cycle, invoking the controller's lifecycle hooks (pre-start,
  pre-acquire, per-buffer callback, post-acquire) and returning whatever post-acquire
  produces"; the callback is "invoked once per physically completed hardware buffer, in
  strictly increasing buffer-index order". \<open>deliver\<close> hands the raw buffers to
  \<open>handle_buffer\<close> with the numbers \<open>k\<close>, \<open>k + 1\<close>, ...; \<open>pre_acquire\<close> only calls the
  trigger callback.
\<close>

fun deliver :: "ctl \<Rightarrow> nat \<Rightarrow> nat list list \<Rightarrow> error + ctl" where
  "deliver c k [] = Inr c"
| "deliver c k (raw # raws) =
     and_then (handle_buffer c raw (Some (int k))) (\<lambda>c'. deliver c' (Suc k) raws)"

definition acquire :: "ctl \<Rightarrow> nat list list \<Rightarrow> error + result" where
  "acquire c raws =
     and_then (pre_start_capture c) (\<lambda>c1. and_then (deliver c1 0 raws) post_acquire)"

text \<open>The shape of what \<open>post_acquire\<close> returns.\<close>

definition result_shape :: "result \<Rightarrow> nat list" where
  "result_shape r = (case r of Reals x \<Rightarrow> shape x | Complexes z \<Rightarrow> shape z)"

section \<open>Notions for the properties\<close>

text \<open>
  Two controllers agree on what only the constructor and the user set: the class, the
  number of channels, the card's bit depth, model and buffer order, the dtype, the four
  hardware parameters and \<open>demod_frq\<close>.
\<close>

definition same_setup :: "ctl \<Rightarrow> ctl \<Rightarrow> bool" where
  "same_setup c c' \<longleftrightarrow>
     variant c' = variant c \<and> number_of_channels c' = number_of_channels c
     \<and> average_buffers c' = average_buffers c \<and> nbits c' = nbits c \<and> model c' = model c
     \<and> buffer_order c' = buffer_order c \<and> do_allocate_data c' = do_allocate_data c
     \<and> datadtype c' = datadtype c \<and> sample_rate c' = sample_rate c
     \<and> samples_per_record c' = samples_per_record c \<and> records_per_buffer c' = records_per_buffer c
     \<and> buffers_per_acquisition c' = buffers_per_acquisition c \<and> demod_frq c' = demod_frq c"

text \<open>
  Modelled from the spec: the callers of a controller (the driver and the user), which are
  not among the sources. Between the construction and \<open>post_acquire\<close> the user sets
  \<open>demod_frq\<close>, and \<open>pre_start_capture\<close>, \<open>handle_buffer\<close> and \<open>data_shape\<close> are called;
  here they may come in any order and number, which covers the driver's cycle. \<open>run\<close>
  stops at the first exception.
\<close>

datatype event = SetDemodFrq real | PreStartCapture | HandleBuffer "nat list" "int option" | DataShape

fun step :: "ctl \<Rightarrow> event \<Rightarrow> error + ctl" where
  "step c (SetDemodFrq f) = Inr (c\<lparr>demod_frq := Some f\<rparr>)"
| "step c PreStartCapture = pre_start_capture c"
| "step c (HandleBuffer raw k) = handle_buffer c raw k"
| "step c DataShape = and_then (data_shape c) (\<lambda>(shp, c'). Inr c')"

fun run :: "ctl \<Rightarrow> event list \<Rightarrow> error + ctl" where
  "run c [] = Inr c"
| "run c (e # es) = and_then (step c e) (\<lambda>c'. run c' es)"

text \<open>
  The number of channels is 2, the buffer shape (once set) is that of the buffer order
  with 2 channels, and the last axis of the accumulator (once allocated) has length 2.
\<close>

definition channels_ok :: "ctl \<Rightarrow> bool" where
  "channels_ok c \<longleftrightarrow>
     number_of_channels c = 2
     \<and> (\<forall>bs. buffer_shape c = Some bs \<longrightarrow>
           (buffer_order c = ''brsc'' \<and> bs = [records_per_buffer c, samples_per_record c, 2])
           \<or> (buffer_order c = ''bcrs'' \<and> bs = [2, records_per_buffer c, samples_per_record c]))
     \<and> (\<forall>d. data c = Some d \<longrightarrow> shape d \<noteq> [] \<and> last (shape d) = 2)"

section \<open>The specification's wording\<close>

text \<open>
  \<open>time2samples\<close> as the specification words it: the ideal count \<open>t * sample_rate\<close>
  rounded down to a multiple of 128, plus 128 if that many samples last less than \<open>t\<close>,
  and at least 384.
\<close>

definition round_down_128 :: "real \<Rightarrow> int" where
  "round_down_128 x = \<lfloor>x / 128\<rfloor> * 128"


section \<open>Properties\<close>

subsection \<open>Evaluation on concrete inputs\<close>

lemma upt_0_numeral: "[0..<numeral n] = 0 # [Suc 0..<numeral n]"
  by (simp add: upt_rec)

lemma upt_Suc_0_numeral:
  "[Suc 0..<numeral n] = (if (1::nat) < numeral n then Suc 0 # [2..<numeral n] else [])"
  by (simp add: upt_rec [of "Suc 0"] numeral_2_eq_2)

lemma replicate_numeral_unfold: "replicate (numeral n) x = x # replicate (pred_numeral n) x"
  by (simp add: numeral_eq_Suc)

lemmas np_defs = and_then_def zeros_def reshape_def transpose_120_def broadcast_shapes_def
  bindex_def broadcast_to_def broadcast2_def map_array_def iadd_def setitem_def slice_stop_def
  take_axis_def mean_axis_def Let_def upt_0_numeral upt_Suc_0_numeral replicate_numeral_unfold
  drop_bit_eq_div

lemmas ctl_defs = fresh_def init_def demod_setup_def data_shape_def allocate_data_def
  base_pre_start_capture_def pre_start_capture_def process_buffer_def sum_buffer_def
  store_buffer_def shape_buffer_def handle_buffer_def post_acquire_real_def quadrature_def
  demodulate_def post_acquire_def acquire_def py_int_def

subsection \<open>time2samples\<close>




lemma round_down_128_le: "real_of_int (round_down_128 x) \<le> x"
proof -
  have "real_of_int \<lfloor>x / 128\<rfloor> \<le> x / 128" by (rule of_int_floor_le)
  then show ?thesis by (simp add: round_down_128_def)
qed










subsection \<open>Shapes and dimension names\<close>

lemma data_shape_length:
  "data_shape c = Inr (shp, c') \<Longrightarrow> length shp = length (data_dims c)"
  by (cases "variant c")
     (auto simp: data_shape_def data_dims_def and_then_def Let_def split: sum.splits if_splits)

text \<open>
  C1. The tuples of \<open>data_shape\<close> and \<open>data_dims\<close> have the same length in every class
  (\<open>data_shape_length\<close>), but their entries do not correspond in \<open>AvgRecDemodCtl\<close>: with 3
  records per buffer and 5 buffers per acquisition, the dimensions are named
  (buffers, IF_periods, channels) and the first entry of \<open>data_shape\<close> is 3, the number of
  records, while the array that \<open>post_acquire\<close> returns has 5 buffers along its first
  axis. The subclass \<open>AvgRecIQCtl\<close> does put the number of buffers first.
\<close>

theorem avg_rec_demod_shape_mismatch:
  "and_then (pre_start_capture ((fresh AvgRecDemod None 1 2 3 5)\<lparr>demod_frq := Some 1\<rparr>))
     (\<lambda>c. map_sum id fst (data_shape c)) = Inr [3, 2, 2]
   \<and> data_dims (fresh AvgRecDemod None 1 2 3 5) = [''buffers'', ''IF_periods'', ''channels'']
   \<and> buffers_per_acquisition (fresh AvgRecDemod None 1 2 3 5) = 5
   \<and> map_sum id result_shape
        (acquire ((fresh AvgRecDemod None 1 2 3 5)\<lparr>demod_frq := Some 1\<rparr>) []) = Inr [5, 2, 2]
   \<and> and_then (pre_start_capture ((fresh AvgRecIQ None 1 2 3 5)\<lparr>demod_frq := Some 1\<rparr>))
     (\<lambda>c. map_sum id fst (data_shape c)) = Inr [5, 2]"
  by (simp add: np_defs ctl_defs data_dims_def result_shape_def)

subsection \<open>Averaging over buffers and demodulation\<close>

text \<open>
  C3. Two buffers of one record, one sample and two channels, every sample 0xFFF0, a
  sample rate and a demodulation frequency of 1 (so the period is 1 and the cosine is 1):
  \<open>AvgDemodCtl\<close> returns 3071/1024 for each channel, the demodulated sum of the two
  buffers, while the mean over the buffers of what \<open>DemodCtl\<close> returns is 2047/2048. The
  accumulated sum is never divided by the number of buffers.
\<close>

theorem avg_demod_is_not_mean_of_demod:
  "acquire ((fresh AvgDemod None 1 1 1 2)\<lparr>demod_frq := Some 1\<rparr>)
       [[0xFFF0, 0xFFF0], [0xFFF0, 0xFFF0]]
     = Inr (Complexes \<lparr>shape = [1, 1, 2],
                       flat = [Complex (3071 / 1024) 0, Complex (3071 / 1024) 0]\<rparr>)
   \<and> and_then (acquire ((fresh Demod None 1 1 1 2)\<lparr>demod_frq := Some 1\<rparr>)
                  [[0xFFF0, 0xFFF0], [0xFFF0, 0xFFF0]])
        (\<lambda>r. case r of Complexes z \<Rightarrow> mean_axis 0 z | Reals x \<Rightarrow> Inl TypeError)
     = Inr \<lparr>shape = [1, 1, 2], flat = [Complex (2047 / 2048) 0, Complex (2047 / 2048) 0]\<rparr>"
  by (simp add: np_defs ctl_defs)

subsection \<open>The degenerate demodulation\<close>

text \<open>
  C8. A sample rate of 2 and a demodulation frequency of 1 give a period of 2; with one
  sample per record there are 0 demodulated samples. \<open>data_shape\<close> then announces an
  axis of length 0, yet \<open>post_acquire\<close> of every demodulating class ends in the ValueError
  of the reshape, which cannot infer its unknown dimension from a product of 0.
\<close>

theorem degenerate_demodulation_raises:
  "and_then (pre_start_capture ((fresh AvgDemod None 2 1 1 1)\<lparr>demod_frq := Some 1\<rparr>))
     (\<lambda>c. map_sum id fst (data_shape c)) = Inr [1, 0, 2]
   \<and> acquire ((fresh AvgDemod None 2 1 1 1)\<lparr>demod_frq := Some 1\<rparr>) [[0xFFF0, 0xFFF0]]
       = Inl ValueError
   \<and> acquire ((fresh Demod None 2 1 1 1)\<lparr>demod_frq := Some 1\<rparr>) [[0xFFF0, 0xFFF0]]
       = Inl ValueError
   \<and> acquire ((fresh AvgRecDemod None 2 1 1 1)\<lparr>demod_frq := Some 1\<rparr>) [[0xFFF0, 0xFFF0]]
       = Inl ValueError
   \<and> acquire ((fresh AvgIQ None 2 1 1 1)\<lparr>demod_frq := Some 1\<rparr>) [[0xFFF0, 0xFFF0]]
       = Inl ValueError
   \<and> acquire ((fresh AvgRecIQ None 2 1 1 1)\<lparr>demod_frq := Some 1\<rparr>) [[0xFFF0, 0xFFF0]]
       = Inl ValueError"
  by (simp add: np_defs ctl_defs)

subsection \<open>Normalisation\<close>

lemma post_acquire_real_Some:
  "data c = Some d \<Longrightarrow>
   post_acquire_real c =
     Inr \<lparr>shape = shape d,
          flat = map (\<lambda>x. real (if nbits c = 12 then drop_bit 4 x else x) / 2 ^ nbits c - 1 / 2) (flat d)\<rparr>"
  by (simp add: post_acquire_real_def map_array_def)

lemma post_acquire_not_demod:
  "\<not> is_demod (variant c) \<Longrightarrow> post_acquire c = and_then (post_acquire_real c) (\<lambda>x. Inr (Reals x))"
  by (simp add: post_acquire_def)

lemma normalized_lower: "- 1 / 2 \<le> real n / 2 ^ k - 1 / 2"
  by simp

lemma normalized_upper: "n < 2 ^ k \<Longrightarrow> real n / 2 ^ k - 1 / 2 < 1 / 2"
proof -
  assume "n < 2 ^ k"
  then have "real n < 2 ^ k" by (metis of_nat_less_iff of_nat_numeral of_nat_power)
  then have "real n / 2 ^ k < 1" by simp
  then show ?thesis by linarith
qed

lemma shifted_bound: "x < 2 ^ 16 \<Longrightarrow> drop_bit 4 x < (2::nat) ^ 12"
  by (simp add: drop_bit_eq_div)

lemma raw_dtype_width:
  "init v idn sr spr rpb bpa = Inr c \<Longrightarrow> \<not> is_avg_buf v \<Longrightarrow> \<not> is_avg_rec v \<Longrightarrow>
   (nbits c = 8 \<or> nbits c = 12) \<and> bits (datadtype c) = (if nbits c = 12 then 16 else 8)"
  by (auto simp: init_def fresh_def Let_def split: if_splits option.splits)

text \<open>
  What \<open>post_acquire\<close> of \<open>RawAcqCtl\<close>, \<open>AvgBufCtl\<close> and \<open>AvgRecCtl\<close> computes, for
  every content of the accumulator: an array of the same shape whose elements are the
  accumulator's, shifted right by 4 bits when the card has 12 bits, divided by
  \<open>2 ^ nbits\<close>, minus 0.5 (in exact arithmetic). Every element is at least -0.5, and it is
  below 0.5 when the accumulator's element is below \<open>2 ^ 8\<close> (8 bits) or \<open>2 ^ 16\<close>
  (12 bits), the range of one raw sample.
\<close>

theorem post_acquire_normalizes:
  assumes "\<not> is_demod (variant c)" and "data c = Some d"
  shows "\<exists>out. post_acquire c = Inr (Reals out) \<and> shape out = shape d
           \<and> flat out = map (\<lambda>x. real (if nbits c = 12 then drop_bit 4 x else x) / 2 ^ nbits c - 1 / 2) (flat d)
           \<and> (\<forall>y \<in> set (flat out). - 1 / 2 \<le> y)
           \<and> ((nbits c = 8 \<or> nbits c = 12)
                \<and> (\<forall>x \<in> set (flat d). x < 2 ^ (if nbits c = 12 then 16 else 8))
               \<longrightarrow> (\<forall>y \<in> set (flat out). y < 1 / 2))"
proof -
  let ?f = "\<lambda>x. real (if nbits c = 12 then drop_bit 4 x else x) / 2 ^ nbits c - 1 / 2"
  let ?out = "\<lparr>shape = shape d, flat = map ?f (flat d)\<rparr>"
  have run: "post_acquire c = Inr (Reals ?out)"
    using assms by (simp add: post_acquire_not_demod post_acquire_real_Some and_then_def)
  have low: "\<forall>y \<in> set (flat ?out). - 1 / 2 \<le> y"
    by auto
  have up: "\<forall>y \<in> set (flat ?out). y < 1 / 2"
    if nb: "nbits c = 8 \<or> nbits c = 12"
      and small: "\<forall>x \<in> set (flat d). x < 2 ^ (if nbits c = 12 then 16 else 8)"
  proof
    fix y assume "y \<in> set (flat ?out)"
    then obtain x where x: "x \<in> set (flat d)" and y: "y = ?f x" by auto
    show "y < 1 / 2"
    proof (cases "nbits c = 12")
      case True
      with small x have "x < 2 ^ 16" by simp
      then have "drop_bit 4 x < (2::nat) ^ 12" by (rule shifted_bound)
      from normalized_upper [OF this] show ?thesis using True y by simp
    next
      case False
      with nb have eight: "nbits c = 8" by simp
      with small x have "x < 2 ^ 8" by simp
      from normalized_upper [OF this] show ?thesis using eight y by simp
    qed
  qed
  show ?thesis
    apply (rule exI [of _ ?out])
    using run low up by simp
qed

theorem post_acquire_normalizes_witness:
  "post_acquire ((fresh Raw None 1 1 1 1)\<lparr>data := Some \<lparr>shape = [1, 1, 1, 2], flat = [0, 0xFFFF]\<rparr>\<rparr>)
     = Inr (Reals \<lparr>shape = [1, 1, 1, 2], flat = [- 1 / 2, 4095 / 4096 - 1 / 2]\<rparr>)
   \<and> (- 1 / 2 :: real) < 1 / 2 \<and> (4095 / 4096 - 1 / 2 :: real) < 1 / 2"
proof -
  let ?d = "\<lparr>shape = [1, 1, 1, 2], flat = [0, 0xFFFF :: nat]\<rparr>"
  let ?c = "(fresh Raw None 1 1 1 1)\<lparr>data := Some ?d\<rparr>"
  have v: "\<not> is_demod (variant ?c)" by (simp add: fresh_def)
  have d: "data ?c = Some ?d" by simp
  have nb: "nbits ?c = 12" by (simp add: fresh_def)
  from post_acquire_normalizes [OF v d]
  obtain out where run: "post_acquire ?c = Inr (Reals out)" and sh: "shape out = shape ?d"
    and fl: "flat out = map (\<lambda>x. real (if nbits ?c = 12 then drop_bit 4 x else x) / 2 ^ nbits ?c - 1 / 2) (flat ?d)"
    by blast
  have "flat out = [- 1 / 2, 4095 / 4096 - 1 / 2]"
    unfolding fl nb by (simp add: drop_bit_eq_div)
  with sh have "out = \<lparr>shape = [1, 1, 1, 2], flat = [- 1 / 2, 4095 / 4096 - 1 / 2]\<rparr>"
    by (cases out) simp
  with run show ?thesis by simp
qed

text \<open>
  C2. The finalized values of a class without demodulation are to lie between -0.5
  (included) and 0.5 (excluded), and \<open>AvgBufCtl\<close> is documented to average over buffers.
  It returns the normalised sum instead: after two buffers of one record, one sample and
  two channels, every sample 0xFFF0, the accumulator holds 0x1FFE0 and \<open>post_acquire\<close>
  returns 3071/2048 for each channel, which is not below 0.5. The sum is never divided by
  the number of buffers (the same defect as in C3).
\<close>

theorem avg_buf_range_counterexample:
  "acquire (fresh AvgBuf None 1 1 1 2) [[0xFFF0, 0xFFF0], [0xFFF0, 0xFFF0]]
     = Inr (Reals \<lparr>shape = [1, 1, 2], flat = [3071 / 2048, 3071 / 2048]\<rparr>)
   \<and> \<not> (3071 / 2048 :: real) < 1 / 2"
  by (simp add: np_defs ctl_defs)

text \<open>
  C9. In a 12-bit \<open>RawAcqCtl\<close> a stored sample 0xFFF is finalized to its value shifted
  right by 4 bits, 255, divided by 4096, minus 0.5: that is -1793/4096 (about -0.4377).
\<close>

theorem raw_max_sample:
  assumes "variant c = Raw" and "nbits c = 12" and "data c = Some d"
    and "i < length (flat d)" and "flat d ! i = 0xFFF"
  shows "\<exists>out. post_acquire c = Inr (Reals out) \<and> shape out = shape d
           \<and> flat out ! i = real (drop_bit 4 (0xFFF :: nat)) / 4096 - 1 / 2
           \<and> drop_bit 4 (0xFFF :: nat) = 255
           \<and> flat out ! i = - 1793 / 4096"
proof -
  have nd: "\<not> is_demod (variant c)" using assms(1) by simp
  have "post_acquire c = Inr (Reals \<lparr>shape = shape d,
          flat = map (\<lambda>x. real (if nbits c = 12 then drop_bit 4 x else x) / 2 ^ nbits c - 1 / 2) (flat d)\<rparr>)"
    using nd assms(3) by (simp add: post_acquire_not_demod post_acquire_real_Some and_then_def)
  then show ?thesis using assms by (simp add: drop_bit_eq_div)
qed

theorem raw_max_sample_witness:
  "\<exists>out. post_acquire ((fresh Raw None 1 1 1 1)\<lparr>data := Some \<lparr>shape = [1, 1, 1, 2], flat = [0xFFF, 0xFFF]\<rparr>\<rparr>)
            = Inr (Reals out)
         \<and> shape out = [1, 1, 1, 2] \<and> flat out ! 0 = - 1793 / 4096"
proof -
  let ?d = "\<lparr>shape = [1, 1, 1, 2], flat = [0xFFF, 0xFFF :: nat]\<rparr>"
  let ?c = "(fresh Raw None 1 1 1 1)\<lparr>data := Some ?d\<rparr>"
  have v: "variant ?c = Raw" and nb: "nbits ?c = 12" by (simp_all add: fresh_def)
  have d: "data ?c = Some ?d" by simp
  have i: "0 < length (flat ?d)" and x: "flat ?d ! 0 = 0xFFF" by simp_all
  from raw_max_sample [OF v nb d i x] show ?thesis by auto
qed

text \<open>The value is negative, not 0.0123: the whole acquisition of one such buffer.\<close>

theorem raw_max_sample_counterexample:
  "acquire (fresh Raw None 1 1 1 1) [[0xFFF, 0xFFF]]
     = Inr (Reals \<lparr>shape = [1, 1, 1, 2], flat = [255 / 4096 - 1 / 2, 255 / 4096 - 1 / 2]\<rparr>)
   \<and> (255 / 4096 - 1 / 2 :: real) < 0"
  by (simp add: np_defs ctl_defs)

subsection \<open>Period and demodulated samples\<close>









subsection \<open>What the methods leave unchanged\<close>

lemma and_then_Inr: "and_then m f = Inr y \<longleftrightarrow> (\<exists>x. m = Inr x \<and> f x = Inr y)"
  by (cases m) (simp_all add: and_then_def)

lemma and_then_Inl_simp [simp]: "and_then (Inl e) f = Inl e"
  by (simp add: and_then_def)

lemma and_then_Inr_simp [simp]: "and_then (Inr x) f = f x"
  by (simp add: and_then_def)

lemma same_setup_refl [simp]: "same_setup c c"
  by (simp add: same_setup_def)

lemma same_setup_trans: "same_setup a b \<Longrightarrow> same_setup b c \<Longrightarrow> same_setup a c"
  by (simp add: same_setup_def)

lemma demod_setup_frame:
  assumes "demod_setup c = Inr (ds, c')"
  shows "same_setup c c' \<and> data c' = data c \<and> tvals c' = tvals c
       \<and> buffer_shape c' = buffer_shape c \<and> handling_times c' = handling_times c"
  using assms
  by (auto simp: demod_setup_def Let_def same_setup_def split: option.splits if_splits)

lemma data_shape_frame:
  assumes "data_shape c = Inr (shp, c')"
  shows "same_setup c c' \<and> data c' = data c \<and> tvals c' = tvals c
       \<and> buffer_shape c' = buffer_shape c \<and> handling_times c' = handling_times c"
proof (cases "is_demod (variant c)")
  case False
  then have "c' = c" using assms
    by (cases "variant c") (auto simp: data_shape_def Let_def)
  then show ?thesis by simp
next
  case True
  then obtain ds where "demod_setup c = Inr (ds, c')" using assms
    by (cases "variant c") (auto simp: data_shape_def Let_def and_then_Inr)
  then show ?thesis by (rule demod_setup_frame)
qed

lemma allocate_data_frame:
  assumes "allocate_data c = Inr c'"
  shows "same_setup c c' \<and> buffer_shape c' = buffer_shape c \<and> handling_times c' = handling_times c"
proof -
  let ?c1 = "c\<lparr>tvals := Some (map (\<lambda>n. real n / sample_rate c) [0..<samples_per_record c])\<rparr>"
  from assms obtain shp c2 d where ds: "data_shape ?c1 = Inr (shp, c2)" and c': "c' = c2\<lparr>data := Some d\<rparr>"
    by (auto simp: allocate_data_def Let_def and_then_Inr)
  from data_shape_frame [OF ds] have "same_setup ?c1 c2" "buffer_shape c2 = buffer_shape ?c1"
    "handling_times c2 = handling_times ?c1" by simp_all
  then show ?thesis unfolding c' by (simp add: same_setup_def)
qed

lemma base_pre_start_capture_frame:
  assumes "base_pre_start_capture c = Inr c'"
  shows "same_setup c c' \<and> handling_times c' = Some (buffers_per_acquisition c)
       \<and> (buffer_order c = ''brsc'' \<longrightarrow> buffer_shape c' = Some [records_per_buffer c, samples_per_record c, number_of_channels c])
       \<and> (buffer_order c = ''bcrs'' \<longrightarrow> buffer_shape c' = Some [number_of_channels c, records_per_buffer c, samples_per_record c])
       \<and> (buffer_order c = ''brsc'' \<or> buffer_order c = ''bcrs'')"
proof -
  define bs where "bs = (if buffer_order c = ''brsc'' then [records_per_buffer c, samples_per_record c, number_of_channels c]
     else [number_of_channels c, records_per_buffer c, samples_per_record c])"
  let ?c1 = "c\<lparr>buffer_shape := Some bs\<rparr>"
  from assms have ord: "buffer_order c = ''brsc'' \<or> buffer_order c = ''bcrs''"
    by (auto simp: base_pre_start_capture_def split: if_splits)
  from assms ord obtain c2 where
    a: "(if do_allocate_data ?c1 then allocate_data ?c1 else Inr ?c1) = Inr c2"
    and c': "c' = c2\<lparr>handling_times := Some (buffers_per_acquisition c2)\<rparr>"
    by (auto simp: base_pre_start_capture_def and_then_Inr bs_def split: if_splits)
  have "same_setup ?c1 c2 \<and> buffer_shape c2 = buffer_shape ?c1"
  proof (cases "do_allocate_data ?c1")
    case True
    with a have "allocate_data ?c1 = Inr c2" by simp
    from allocate_data_frame [OF this] show ?thesis by simp
  next
    case False
    with a show ?thesis by simp
  qed
  then show ?thesis using ord unfolding c' by (auto simp: same_setup_def bs_def)
qed

lemma pre_start_capture_cases:
  assumes "pre_start_capture c = Inr c'"
  obtains c1 where "base_pre_start_capture c = Inr c1" and "c' = c1"
  | c1 d where "base_pre_start_capture c = Inr c1" and "c' = c1\<lparr>data := Some d\<rparr>"
proof -
  from assms obtain c1 where b: "base_pre_start_capture c = Inr c1"
    and rest: "(let B = int (buffers_per_acquisition c1); R = int (records_per_buffer c1);
           S = int (samples_per_record c1); C = int (number_of_channels c1)
       in if variant c1 = Demod then
            and_then (zeros [B, R, S, C]) (\<lambda>d. Inr (c1\<lparr>data := Some d\<rparr>))
          else if variant c1 = AvgDemod \<or> variant c1 = AvgIQ then
            and_then (zeros [R, S, C]) (\<lambda>d. Inr (c1\<lparr>data := Some d\<rparr>))
          else if variant c1 = AvgRecDemod \<or> variant c1 = AvgRecIQ then
            and_then (zeros [B, S, C]) (\<lambda>d. Inr (c1\<lparr>data := Some d\<rparr>))
          else Inr c1) = Inr c'"
    unfolding pre_start_capture_def and_then_Inr by blast
  show thesis
  proof (cases "variant c1 = Demod \<or> variant c1 = AvgDemod \<or> variant c1 = AvgIQ
      \<or> variant c1 = AvgRecDemod \<or> variant c1 = AvgRecIQ")
    case False
    with rest have "c' = c1" by (simp add: Let_def)
    with b show ?thesis by (rule that(1))
  next
    case True
    with rest obtain shp d where "zeros shp = Inr d" and "c' = c1\<lparr>data := Some d\<rparr>"
      unfolding Let_def by (simp only: and_then_Inr split: if_splits) blast+
    with b show ?thesis by (intro that(2))
  qed
qed

lemma pre_start_capture_frame:
  assumes "pre_start_capture c = Inr c'"
  shows "same_setup c c' \<and> handling_times c' = Some (buffers_per_acquisition c)
       \<and> (buffer_order c = ''brsc'' \<longrightarrow> buffer_shape c' = Some [records_per_buffer c, samples_per_record c, number_of_channels c])
       \<and> (buffer_order c = ''bcrs'' \<longrightarrow> buffer_shape c' = Some [number_of_channels c, records_per_buffer c, samples_per_record c])
       \<and> (buffer_order c = ''brsc'' \<or> buffer_order c = ''bcrs'')"
  using assms
proof (cases rule: pre_start_capture_cases)
  case (1 c1)
  from base_pre_start_capture_frame [OF 1(1)] show ?thesis unfolding 1(2) .
next
  case (2 c1 d)
  from base_pre_start_capture_frame [OF 2(1)] show ?thesis unfolding 2(2)
    by (simp add: same_setup_def)
qed

lemma pre_start_capture_unknown_order:
  "buffer_order c \<noteq> ''brsc'' \<Longrightarrow> buffer_order c \<noteq> ''bcrs'' \<Longrightarrow> pre_start_capture c = Inl ValueError"
  by (simp add: pre_start_capture_def base_pre_start_capture_def)

subsection \<open>The geometry of a buffer\<close>

lemma index_bound: "i < n \<Longrightarrow> q < m \<Longrightarrow> i * m + q < n * (m::nat)"
proof -
  assume "i < n" and "q < m"
  then have "i * m + q < Suc i * m" by simp
  also have "\<dots> \<le> n * m" using \<open>i < n\<close> by (intro mult_le_mono1) simp
  finally show ?thesis .
qed

lemma length_concat_map_upt:
  "(\<And>i. i < n \<Longrightarrow> length (f i) = m) \<Longrightarrow> length (concat (map f [0..<n])) = n * m"
  by (induction n) simp_all

lemma concat_map_upt_nth:
  assumes "\<And>i. i < n \<Longrightarrow> length (f i) = m" and "i < n" and "q < m"
  shows "concat (map f [0..<n]) ! (i * m + q) = f i ! q"
  using assms
proof (induction n)
  case 0
  then show ?case by simp
next
  case (Suc n)
  have len: "length (concat (map f [0..<n])) = n * m"
    using Suc.prems(1) by (intro length_concat_map_upt) simp
  show ?case
  proof (cases "i < n")
    case True
    then have "i * m + q < n * m" using Suc.prems(3) by (rule index_bound)
    then show ?thesis using Suc.IH [OF _ True Suc.prems(3)] Suc.prems(1) len
      by (simp add: nth_append)
  next
    case False
    with Suc.prems(2) have "i = n" by simp
    then show ?thesis using len by (simp add: nth_append)
  qed
qed

lemma reshape_known:
  assumes "prod_list (shape a) = prod_list bs"
  shows "reshape (map int bs) a = Inr \<lparr>shape = bs, flat = flat a\<rparr>"
proof -
  have f1: "filter (\<lambda>d. 0 \<le> d) (map int bs) = map int bs"
    by (induction bs) simp_all
  have f2: "filter (\<lambda>d. d < 0) (map int bs) = []"
    by (induction bs) simp_all
  have p: "prod_list (map int bs) = int (prod_list bs)"
    by (induction bs) simp_all
  have m: "map (\<lambda>d. nat (int d)) bs = bs" by (induction bs) simp_all
  show ?thesis
    using assms by (simp add: reshape_def f1 f2 p Let_def comp_def m)
qed

lemma reshape_known_mismatch:
  assumes "prod_list (shape a) \<noteq> prod_list bs"
  shows "reshape (map int bs) a = Inl ValueError"
proof -
  have f1: "filter (\<lambda>d. 0 \<le> d) (map int bs) = map int bs"
    by (induction bs) simp_all
  have f2: "filter (\<lambda>d. d < 0) (map int bs) = []"
    by (induction bs) simp_all
  have p: "prod_list (map int bs) = int (prod_list bs)"
    by (induction bs) simp_all
  show ?thesis
    using assms by (simp add: reshape_def f1 f2 p Let_def)
qed

lemma shape_buffer_brsc:
  assumes "buffer_shape c = Some bs" and "buffer_order c = ''brsc''" and "length raw = prod_list bs"
  shows "shape_buffer c raw = Inr \<lparr>shape = bs, flat = raw\<rparr>"
  using assms by (simp add: shape_buffer_def reshape_known)

lemma transpose_120_nth:
  assumes "shape a = [C, R, S]" and "r < R" and "s < S" and "ch < C"
  shows "\<exists>b. transpose_120 a = Inr b \<and> shape b = [R, S, C] \<and> length (flat b) = R * (S * C)
           \<and> flat b ! ((r * S + s) * C + ch) = flat a ! ((ch * R + r) * S + s)"
proof -
  let ?col = "\<lambda>i j. map (\<lambda>k. flat a ! ((k * R + i) * S + j)) [0..<C]"
  let ?row = "\<lambda>i. concat (map (?col i) [0..<S])"
  let ?b = "\<lparr>shape = [R, S, C], flat = concat (map ?row [0..<R])\<rparr>"
  have t: "transpose_120 a = Inr ?b" using assms(1) by (simp add: transpose_120_def)
  have lrow: "length (?row i) = S * C" for i
    by (intro length_concat_map_upt) simp
  have len: "length (flat ?b) = R * (S * C)"
    using lrow by (simp add: length_concat_map_upt)
  have q: "s * C + ch < S * C" using assms(3,4) by (rule index_bound)
  have "(r * S + s) * C + ch = r * (S * C) + (s * C + ch)" by (simp add: algebra_simps)
  then have "flat ?b ! ((r * S + s) * C + ch) = concat (map ?row [0..<R]) ! (r * (S * C) + (s * C + ch))"
    by (simp only: ndarray.simps)
  also have "\<dots> = ?row r ! (s * C + ch)"
    using lrow assms(2) q by (intro concat_map_upt_nth) simp_all
  also have "\<dots> = ?col r s ! ch"
    using assms(3,4) by (intro concat_map_upt_nth) simp_all
  also have "\<dots> = flat a ! ((ch * R + r) * S + s)" using assms(4) by simp
  finally show ?thesis using t len by (intro exI [of _ ?b]) simp
qed

lemma transpose_120_shape:
  assumes "shape a = [C, R, S]"
  shows "\<exists>b. transpose_120 a = Inr b \<and> shape b = [R, S, C] \<and> length (flat b) = R * (S * C)"
proof -
  let ?col = "\<lambda>i j. map (\<lambda>k. flat a ! ((k * R + i) * S + j)) [0..<C]"
  let ?row = "\<lambda>i. concat (map (?col i) [0..<S])"
  have lrow: "length (?row i) = S * C" for i
    by (intro length_concat_map_upt) simp
  then have "length (concat (map ?row [0..<R])) = R * (S * C)"
    by (simp add: length_concat_map_upt)
  then show ?thesis using assms by (simp add: transpose_120_def)
qed

lemma shape_buffer_bcrs:
  assumes "buffer_shape c = Some [C, R, S]" and "buffer_order c = ''bcrs''"
    and "length raw = C * (R * S)"
  shows "\<exists>buf. shape_buffer c raw = Inr buf \<and> shape buf = [R, S, C]
           \<and> length (flat buf) = R * (S * C)
           \<and> (\<forall>r<R. \<forall>s<S. \<forall>ch<C. flat buf ! ((r * S + s) * C + ch) = raw ! ((ch * R + r) * S + s))"
proof -
  let ?a = "\<lparr>shape = [C, R, S], flat = raw\<rparr>"
  have "reshape (map int [C, R, S]) \<lparr>shape = [length raw], flat = raw\<rparr> = Inr ?a"
    using assms(3) reshape_known [of "\<lparr>shape = [length raw], flat = raw\<rparr>" "[C, R, S]"] by simp
  then have sb: "shape_buffer c raw = transpose_120 ?a"
    using assms(1,2) by (simp add: shape_buffer_def)
  from transpose_120_shape [of ?a C R S] obtain b where b: "transpose_120 ?a = Inr b"
    and sh: "shape b = [R, S, C]" and len: "length (flat b) = R * (S * C)" by auto
  have "flat b ! ((r * S + s) * C + ch) = raw ! ((ch * R + r) * S + s)"
    if "r < R" "s < S" "ch < C" for r s ch
    using transpose_120_nth [of ?a C R S r s ch] that b by auto
  with sb b sh len show ?thesis by auto
qed

lemma shape_buffer_mismatch:
  assumes "buffer_shape c = Some bs" and "length raw \<noteq> prod_list bs"
  shows "shape_buffer c raw = Inl ValueError"
  using assms by (simp add: shape_buffer_def reshape_known_mismatch)

text \<open>
  C5. \<open>pre_start_capture\<close> raises ValueError (the ConfigurationError of the
  specification) for every buffer order other than \<open>brsc\<close> and \<open>bcrs\<close>. When it
  returns, the buffer shape has \<open>samples_per_record * records_per_buffer * channels\<close>
  elements and a raw buffer of any other length is refused (ValueError). In the order
  \<open>brsc\<close> the shape is (records, samples, channels) and \<open>handle_buffer\<close> reads the raw
  buffer in that shape as it is; in the order \<open>bcrs\<close> the shape is
  (channels, records, samples) and \<open>handle_buffer\<close> works on the transposed array of shape
  (records, samples, channels), whose element (r, s, ch) is element (ch, r, s) of the raw
  buffer.
\<close>

theorem buffer_geometry:
  "(buffer_order c \<noteq> ''brsc'' \<and> buffer_order c \<noteq> ''bcrs'' \<longrightarrow> pre_start_capture c = Inl ValueError)
   \<and> (\<forall>c'. pre_start_capture c = Inr c' \<longrightarrow>
        (\<exists>bs. buffer_shape c' = Some bs
           \<and> prod_list bs = samples_per_record c * records_per_buffer c * number_of_channels c
           \<and> (\<forall>raw. length raw \<noteq> prod_list bs \<longrightarrow> shape_buffer c' raw = Inl ValueError)
           \<and> (buffer_order c = ''brsc'' \<longrightarrow>
                bs = [records_per_buffer c, samples_per_record c, number_of_channels c]
                \<and> (\<forall>raw. length raw = prod_list bs \<longrightarrow>
                      shape_buffer c' raw = Inr \<lparr>shape = bs, flat = raw\<rparr>))
           \<and> (buffer_order c = ''bcrs'' \<longrightarrow>
                bs = [number_of_channels c, records_per_buffer c, samples_per_record c]
                \<and> (\<forall>raw. length raw = prod_list bs \<longrightarrow>
                      (\<exists>buf. shape_buffer c' raw = Inr buf
                         \<and> shape buf = [records_per_buffer c, samples_per_record c, number_of_channels c]
                         \<and> length (flat buf) = length raw
                         \<and> (\<forall>r<records_per_buffer c. \<forall>s<samples_per_record c. \<forall>ch<number_of_channels c.
                               flat buf ! ((r * samples_per_record c + s) * number_of_channels c + ch)
                               = raw ! ((ch * records_per_buffer c + r) * samples_per_record c + s)))))))"
proof (intro conjI allI impI)
  assume "buffer_order c \<noteq> ''brsc'' \<and> buffer_order c \<noteq> ''bcrs''"
  then show "pre_start_capture c = Inl ValueError"
    by (simp add: pre_start_capture_unknown_order)
next
  fix c' assume run: "pre_start_capture c = Inr c'"
  let ?R = "records_per_buffer c" and ?S = "samples_per_record c" and ?C = "number_of_channels c"
  from pre_start_capture_frame [OF run]
  have same: "same_setup c c'"
    and brsc: "buffer_order c = ''brsc'' \<Longrightarrow> buffer_shape c' = Some [?R, ?S, ?C]"
    and bcrs: "buffer_order c = ''bcrs'' \<Longrightarrow> buffer_shape c' = Some [?C, ?R, ?S]"
    and ord: "buffer_order c = ''brsc'' \<or> buffer_order c = ''bcrs''"
    by simp_all
  from same have ord': "buffer_order c' = buffer_order c" by (simp add: same_setup_def)
  define bs where "bs = (if buffer_order c = ''brsc'' then [?R, ?S, ?C] else [?C, ?R, ?S])"
  have bs: "buffer_shape c' = Some bs" using ord brsc bcrs by (auto simp: bs_def)
  have prod: "prod_list bs = ?S * ?R * ?C" by (simp add: bs_def)
  have mis: "\<forall>raw. length raw \<noteq> prod_list bs \<longrightarrow> shape_buffer c' raw = Inl ValueError"
    using bs by (simp add: shape_buffer_mismatch)
  have a: "bs = [?R, ?S, ?C] \<and> (\<forall>raw. length raw = prod_list bs \<longrightarrow>
                      shape_buffer c' raw = Inr \<lparr>shape = bs, flat = raw\<rparr>)"
    if o: "buffer_order c = ''brsc''"
    using bs o ord' by (simp add: bs_def shape_buffer_brsc)
  have b: "bs = [?C, ?R, ?S] \<and> (\<forall>raw. length raw = prod_list bs \<longrightarrow>
                      (\<exists>buf. shape_buffer c' raw = Inr buf
                         \<and> shape buf = [?R, ?S, ?C]
                         \<and> length (flat buf) = length raw
                         \<and> (\<forall>r<?R. \<forall>s<?S. \<forall>ch<?C.
                               flat buf ! ((r * ?S + s) * ?C + ch) = raw ! ((ch * ?R + r) * ?S + s))))"
    if o: "buffer_order c = ''bcrs''"
  proof -
    have eq: "bs = [?C, ?R, ?S]" using o by (simp add: bs_def)
    have "\<exists>buf. shape_buffer c' raw = Inr buf \<and> shape buf = [?R, ?S, ?C]
                         \<and> length (flat buf) = length raw
                         \<and> (\<forall>r<?R. \<forall>s<?S. \<forall>ch<?C.
                               flat buf ! ((r * ?S + s) * ?C + ch) = raw ! ((ch * ?R + r) * ?S + s))"
      if l: "length raw = prod_list bs" for raw
    proof -
      have l': "length raw = ?C * (?R * ?S)" using l eq by simp
      have bs': "buffer_shape c' = Some [?C, ?R, ?S]" using bs eq by simp
      have o': "buffer_order c' = ''bcrs''" using o ord' by simp
      from shape_buffer_bcrs [OF bs' o' l'] obtain buf where
        "shape_buffer c' raw = Inr buf" "shape buf = [?R, ?S, ?C]" "length (flat buf) = ?R * (?S * ?C)"
        "\<forall>r<?R. \<forall>s<?S. \<forall>ch<?C. flat buf ! ((r * ?S + s) * ?C + ch) = raw ! ((ch * ?R + r) * ?S + s)"
        by blast
      moreover have "?R * (?S * ?C) = length raw" using l' by (simp add: mult_ac)
      ultimately show ?thesis by auto
    qed
    with eq show ?thesis by blast
  qed
  show "\<exists>bs. buffer_shape c' = Some bs
           \<and> prod_list bs = ?S * ?R * ?C
           \<and> (\<forall>raw. length raw \<noteq> prod_list bs \<longrightarrow> shape_buffer c' raw = Inl ValueError)
           \<and> (buffer_order c = ''brsc'' \<longrightarrow>
                bs = [?R, ?S, ?C]
                \<and> (\<forall>raw. length raw = prod_list bs \<longrightarrow>
                      shape_buffer c' raw = Inr \<lparr>shape = bs, flat = raw\<rparr>))
           \<and> (buffer_order c = ''bcrs'' \<longrightarrow>
                bs = [?C, ?R, ?S]
                \<and> (\<forall>raw. length raw = prod_list bs \<longrightarrow>
                      (\<exists>buf. shape_buffer c' raw = Inr buf
                         \<and> shape buf = [?R, ?S, ?C]
                         \<and> length (flat buf) = length raw
                         \<and> (\<forall>r<?R. \<forall>s<?S. \<forall>ch<?C.
                               flat buf ! ((r * ?S + s) * ?C + ch)
                               = raw ! ((ch * ?R + r) * ?S + s)))))"
    using bs prod mis a b by (intro exI [of _ bs]) blast
qed

theorem buffer_geometry_witness:
  "pre_start_capture ((fresh Raw None 1 2 2 1)\<lparr>buffer_order := ''rbcs''\<rparr>) = Inl ValueError
   \<and> (\<exists>c'. pre_start_capture (fresh Raw None 1 2 2 1) = Inr c'
          \<and> buffer_shape c' = Some [2, 2, 2]
          \<and> shape_buffer c' [1, 2, 3, 4, 5, 6, 7, 8] = Inr \<lparr>shape = [2, 2, 2], flat = [1, 2, 3, 4, 5, 6, 7, 8]\<rparr>
          \<and> shape_buffer c' [1, 2, 3] = Inl ValueError)
   \<and> (\<exists>c'. pre_start_capture (fresh Raw (Some (8, ''ATS9870'')) 1 2 2 1) = Inr c'
          \<and> buffer_shape c' = Some [2, 2, 2]
          \<and> shape_buffer c' [1, 2, 3, 4, 5, 6, 7, 8] = Inr \<lparr>shape = [2, 2, 2], flat = [1, 5, 2, 6, 3, 7, 4, 8]\<rparr>)"
proof -
  let ?x = "(fresh Raw None 1 2 2 1)\<lparr>buffer_order := ''rbcs''\<rparr>"
  let ?a = "fresh Raw None 1 2 2 1"
  let ?b = "fresh Raw (Some (8, ''ATS9870'')) 1 2 2 1"
  have "buffer_order ?x \<noteq> ''brsc'' \<and> buffer_order ?x \<noteq> ''bcrs''" by simp
  with buffer_geometry [of ?x] have one: "pre_start_capture ?x = Inl ValueError" by blast
  obtain ca where ca: "pre_start_capture ?a = Inr ca"
    by (simp add: np_defs ctl_defs)
  have oa: "buffer_order ?a = ''brsc''" and pa: "samples_per_record ?a * records_per_buffer ?a * number_of_channels ?a = 8"
    and sa: "[records_per_buffer ?a, samples_per_record ?a, number_of_channels ?a] = [2, 2, 2]"
    by (simp_all add: fresh_def)
  from buffer_geometry [of ?a] ca oa obtain bs where
    "buffer_shape ca = Some bs" "bs = [2, 2, 2]" 
    "\<forall>raw. length raw \<noteq> prod_list bs \<longrightarrow> shape_buffer ca raw = Inl ValueError"
    "\<forall>raw. length raw = prod_list bs \<longrightarrow> shape_buffer ca raw = Inr \<lparr>shape = bs, flat = raw\<rparr>"
    unfolding sa by blast
  then have two: "buffer_shape ca = Some [2, 2, 2]
     \<and> shape_buffer ca [1, 2, 3, 4, 5, 6, 7, 8] = Inr \<lparr>shape = [2, 2, 2], flat = [1, 2, 3, 4, 5, 6, 7, 8]\<rparr>
     \<and> shape_buffer ca [1, 2, 3] = Inl ValueError"
    by simp
  obtain cb where cb: "pre_start_capture ?b = Inr cb" and ob: "buffer_order cb = ''bcrs''"
    by (simp add: np_defs ctl_defs)
  have ob': "buffer_order ?b = ''bcrs''"
    and sb: "[number_of_channels ?b, records_per_buffer ?b, samples_per_record ?b] = [2, 2, 2]"
    by (simp_all add: fresh_def)
  from buffer_geometry [of ?b] cb ob' have bsb: "buffer_shape cb = Some [2, 2, 2]"
    unfolding sb by auto
  have three: "shape_buffer cb [1, 2, 3, 4, 5, 6, 7, 8] = Inr \<lparr>shape = [2, 2, 2], flat = [1, 5, 2, 6, 3, 7, 4, 8]\<rparr>"
    using bsb ob by (simp add: shape_buffer_def np_defs)
  from one ca two cb bsb three show ?thesis by blast
qed

subsection \<open>Accumulation\<close>
















subsection \<open>The number of channels\<close>

lemma reshape_shape:
  assumes "reshape ns a = Inr b"
  shows "length (shape b) = length ns"
    and "ns \<noteq> [] \<Longrightarrow> 0 \<le> last ns \<Longrightarrow> last (shape b) = nat (last ns)"
  using assms by (auto simp: reshape_def Let_def last_map split: if_splits)

lemma mean_axis_shape:
  assumes "mean_axis ax a = Inr m"
  shows "shape m = take ax (shape a) @ drop (Suc ax) (shape a)" and "ax < length (shape a)"
  using assms by (auto simp: mean_axis_def Let_def split: if_splits)

lemma last_remove_axis:
  assumes "Suc ax < length s"
  shows "last (take ax s @ drop (Suc ax) s) = last s"
    and "length (take ax s @ drop (Suc ax) s) = length s - 1"
  using assms by (simp_all add: last_drop)

lemma bshape_rev_same_length:
  "length xs = length ys \<Longrightarrow> bshape_rev xs ys = Inr r \<Longrightarrow>
   length r = length xs \<and> (xs \<noteq> [] \<longrightarrow> hd xs = hd ys \<longrightarrow> hd r = hd xs)"
proof (induction xs ys arbitrary: r rule: bshape_rev.induct)
  case (1 ys)
  then show ?case by simp
next
  case (2 x xs)
  then show ?case by simp
next
  case (3 x xs y ys)
  from "3.prems" have len: "length xs = length ys" by simp
  show ?case
  proof (cases "x = y \<or> y = 1")
    case True
    with "3.prems"(2) obtain r' where r': "bshape_rev xs ys = Inr r'" and r: "r = x # r'"
      by (auto simp: and_then_Inr)
    from "3.IH"(1) [OF True len r'] r show ?thesis by simp
  next
    case False
    with "3.prems"(2) have x1: "x = 1" by (auto split: if_splits)
    with False "3.prems"(2) obtain r' where r': "bshape_rev xs ys = Inr r'" and r: "r = y # r'"
      by (auto simp: and_then_Inr)
    from "3.IH"(2) [OF False x1 len r'] r False show ?thesis by auto
  qed
qed

lemma broadcast_shapes_last:
  assumes "broadcast_shapes s1 s2 = Inr rs" and "length s1 = length s2" and "s1 \<noteq> []"
    and "last s1 = last s2"
  shows "length rs = length s1 \<and> last rs = last s1"
proof -
  from assms(1) obtain r where r: "bshape_rev (rev s1) (rev s2) = Inr r" and rs: "rs = rev r"
    by (auto simp: broadcast_shapes_def and_then_Inr)
  have "hd (rev s1) = hd (rev s2)" using assms(2,3,4) by (simp add: hd_rev) 
  with bshape_rev_same_length [OF _ r] assms(2,3)
  have "length r = length s1" and "hd r = hd (rev s1)" by simp_all
  moreover from this assms(3) have "r \<noteq> []" by auto
  ultimately show ?thesis using rs assms(3) by (simp add: hd_rev last_rev)
qed

lemma quadrature_shape:
  assumes "quadrature c p ds x basis = Inr r"
  shows "length (shape r) = (if variant c = Demod then 4 else 3)
       \<and> last (shape r) = number_of_channels c"
proof -
  let ?ax = "if variant c = Demod then 2 else 1 :: nat"
  let ?lead = "if variant c = Demod then [int (buffers_per_acquisition c), - 1] else [- 1]"
  let ?ns = "?lead @ [ds, p, int (number_of_channels c)]"
  from assms obtain cut rr where rs: "reshape ?ns cut = Inr rr" and m: "mean_axis (Suc ?ax) rr = Inr r"
    unfolding quadrature_def Let_def and_then_Inr by blast
  from reshape_shape [OF rs] have len: "length (shape rr) = ?ax + 3"
    and lst: "last (shape rr) = number_of_channels c"
    by simp_all
  from mean_axis_shape(1) [OF m]
  have sh: "shape r = take (Suc ?ax) (shape rr) @ drop (Suc (Suc ?ax)) (shape rr)" .
  have lt: "Suc (Suc ?ax) < length (shape rr)" using len by simp
  from last_remove_axis [OF lt] sh len lst show ?thesis by simp
qed

lemma demodulate_shape:
  assumes "demodulate c x = Inr z"
  shows "length (shape z) = (if variant c = Demod then 4 else 3)
       \<and> last (shape z) = number_of_channels c"
proof -
  from assms obtain p ds ca sa re im where
    re: "quadrature c p ds x ca = Inr re" and im: "quadrature c p ds x sa = Inr im"
    and z: "broadcast2 Complex re im = Inr z"
    by (auto simp: demodulate_def and_then_Inr split: option.splits)
  from z obtain rs where b: "broadcast_shapes (shape re) (shape im) = Inr rs" and sz: "shape z = rs"
    by (auto simp: broadcast2_def and_then_Inr)
  note qre = quadrature_shape [OF re] and qim = quadrature_shape [OF im]
  have l: "length (shape re) = length (shape im)" using qre qim by simp
  have ne: "shape re \<noteq> []" using qre by (auto split: if_splits)
  have la: "last (shape re) = last (shape im)" using qre qim by simp
  from broadcast_shapes_last [OF b l ne la] qre sz show ?thesis by simp
qed

lemma zeros_shape: "zeros shp = Inr d \<Longrightarrow> shape d = map nat shp"
  by (auto simp: zeros_def split: if_splits)

lemma data_shape_last:
  assumes "data_shape c = Inr (shp, c')"
  shows "shp \<noteq> [] \<and> last shp = int (number_of_channels c)"
  using assms
  by (cases "variant c")
     (auto simp: data_shape_def and_then_def Let_def split: sum.splits if_splits)

lemma zeros_last:
  assumes "zeros shp = Inr d" and "shp \<noteq> []" and "last shp = int n"
  shows "shape d \<noteq> [] \<and> last (shape d) = n"
  using zeros_shape [OF assms(1)] assms(2,3) by (simp add: last_map)

lemma allocate_data_data:
  assumes "allocate_data c = Inr c'"
  shows "\<exists>d. data c' = Some d \<and> shape d \<noteq> [] \<and> last (shape d) = number_of_channels c"
proof -
  let ?c1 = "c\<lparr>tvals := Some (map (\<lambda>n. real n / sample_rate c) [0..<samples_per_record c])\<rparr>"
  from assms obtain shp c2 d where ds: "data_shape ?c1 = Inr (shp, c2)" and z: "zeros shp = Inr d"
    and c': "c' = c2\<lparr>data := Some d\<rparr>"
    by (auto simp: allocate_data_def Let_def and_then_Inr)
  from data_shape_last [OF ds] have "shp \<noteq> []" "last shp = int (number_of_channels c)" by simp_all
  from zeros_last [OF z this] c' show ?thesis by simp
qed

lemma base_pre_start_capture_data:
  assumes "base_pre_start_capture c = Inr c'"
  shows "data c' = data c \<or> (\<exists>d. data c' = Some d \<and> shape d \<noteq> [] \<and> last (shape d) = number_of_channels c)"
proof -
  define bs where "bs = (if buffer_order c = ''brsc''
     then [records_per_buffer c, samples_per_record c, number_of_channels c]
     else [number_of_channels c, records_per_buffer c, samples_per_record c])"
  let ?c1 = "c\<lparr>buffer_shape := Some bs\<rparr>"
  from assms have ord: "buffer_order c = ''brsc'' \<or> buffer_order c = ''bcrs''"
    by (auto simp: base_pre_start_capture_def split: if_splits)
  from assms ord obtain c2 where
    a: "(if do_allocate_data ?c1 then allocate_data ?c1 else Inr ?c1) = Inr c2"
    and c': "c' = c2\<lparr>handling_times := Some (buffers_per_acquisition c2)\<rparr>"
    by (auto simp: base_pre_start_capture_def and_then_Inr bs_def split: if_splits)
  show ?thesis
  proof (cases "do_allocate_data ?c1")
    case True
    with a have "allocate_data ?c1 = Inr c2" by simp
    from allocate_data_data [OF this] c' show ?thesis by auto
  next
    case False
    with a c' show ?thesis by auto
  qed
qed

lemma realloc_data:
  assumes "and_then (zeros shp) (\<lambda>d. Inr (c1\<lparr>data := Some d\<rparr>)) = Inr c'"
    and "shp \<noteq> []" and "last shp = int n"
  shows "\<exists>d. data c' = Some d \<and> shape d \<noteq> [] \<and> last (shape d) = n"
proof -
  from assms(1) obtain d where z: "zeros shp = Inr d" and c': "c' = c1\<lparr>data := Some d\<rparr>"
    unfolding and_then_Inr by auto
  from zeros_last [OF z assms(2,3)] c' show ?thesis by simp
qed

lemma pre_start_capture_data:
  assumes "pre_start_capture c = Inr c'"
  shows "data c' = data c \<or> (\<exists>d. data c' = Some d \<and> shape d \<noteq> [] \<and> last (shape d) = number_of_channels c)"
proof -
  from assms obtain c1 where b: "base_pre_start_capture c = Inr c1"
    and rest: "(let B = int (buffers_per_acquisition c1); R = int (records_per_buffer c1);
           S = int (samples_per_record c1); C = int (number_of_channels c1)
       in if variant c1 = Demod then
            and_then (zeros [B, R, S, C]) (\<lambda>d. Inr (c1\<lparr>data := Some d\<rparr>))
          else if variant c1 = AvgDemod \<or> variant c1 = AvgIQ then
            and_then (zeros [R, S, C]) (\<lambda>d. Inr (c1\<lparr>data := Some d\<rparr>))
          else if variant c1 = AvgRecDemod \<or> variant c1 = AvgRecIQ then
            and_then (zeros [B, S, C]) (\<lambda>d. Inr (c1\<lparr>data := Some d\<rparr>))
          else Inr c1) = Inr c'"
    unfolding pre_start_capture_def and_then_Inr by blast
  from base_pre_start_capture_frame [OF b] have nc: "number_of_channels c1 = number_of_channels c"
    by (simp add: same_setup_def)
  consider (demod) "variant c1 = Demod"
    | (avg) "variant c1 \<noteq> Demod" "variant c1 = AvgDemod \<or> variant c1 = AvgIQ"
    | (rec) "variant c1 \<noteq> Demod" "\<not> (variant c1 = AvgDemod \<or> variant c1 = AvgIQ)"
        "variant c1 = AvgRecDemod \<or> variant c1 = AvgRecIQ"
    | (plain) "variant c1 \<noteq> Demod" "\<not> (variant c1 = AvgDemod \<or> variant c1 = AvgIQ)"
        "\<not> (variant c1 = AvgRecDemod \<or> variant c1 = AvgRecIQ)"
    by blast
  then show ?thesis
  proof cases
    case demod
    with rest have "and_then (zeros [int (buffers_per_acquisition c1), int (records_per_buffer c1),
        int (samples_per_record c1), int (number_of_channels c1)]) (\<lambda>d. Inr (c1\<lparr>data := Some d\<rparr>)) = Inr c'"
      by (simp add: Let_def)
    from realloc_data [OF this, of "number_of_channels c1"] nc show ?thesis by simp
  next
    case avg
    with rest have "and_then (zeros [int (records_per_buffer c1),
        int (samples_per_record c1), int (number_of_channels c1)]) (\<lambda>d. Inr (c1\<lparr>data := Some d\<rparr>)) = Inr c'"
      by (simp add: Let_def)
    from realloc_data [OF this, of "number_of_channels c1"] nc show ?thesis by simp
  next
    case rec
    with rest have "and_then (zeros [int (buffers_per_acquisition c1),
        int (samples_per_record c1), int (number_of_channels c1)]) (\<lambda>d. Inr (c1\<lparr>data := Some d\<rparr>)) = Inr c'"
      by (simp add: Let_def)
    from realloc_data [OF this, of "number_of_channels c1"] nc show ?thesis by simp
  next
    case plain
    with rest have "c' = c1" by (simp add: Let_def)
    with base_pre_start_capture_data [OF b] show ?thesis by simp
  qed
qed

lemma sum_buffer_frame:
  assumes "sum_buffer c d pb = Inr c'"
  shows "\<exists>d'. c' = c\<lparr>data := Some d'\<rparr> \<and> shape d' = shape d"
proof -
  from assms obtain x where pb: "pb = UIntBuf x"
    by (cases pb) (simp_all add: sum_buffer_def)
  with assms obtain d' where i: "iadd (bits (datadtype c)) d x = Inr d'"
    and r: "(case handling_times c of None \<Rightarrow> Inl AttributeError
             | Some n \<Rightarrow> if n = 0 then Inl IndexError else Inr (c\<lparr>data := Some d'\<rparr>)) = Inr c'"
    by (auto simp: sum_buffer_def and_then_Inr)
  from r have c': "c' = c\<lparr>data := Some d'\<rparr>"
    by (auto split: option.splits if_splits)
  from i have "shape d' = shape d" by (auto simp: iadd_def and_then_Inr)
  with c' show ?thesis by blast
qed

lemma store_buffer_frame:
  assumes "store_buffer c d k pb = Inr c'"
  shows "\<exists>d'. c' = c\<lparr>data := Some d'\<rparr> \<and> shape d' = shape d"
proof -
  from assms obtain d' where s: "setitem d k (cast_to (datadtype c) pb) = Inr d'"
    and c': "c' = c\<lparr>data := Some d'\<rparr>"
    by (auto simp: store_buffer_def and_then_Inr Let_def split: option.splits if_splits)
  from s have "shape d' = shape d"
    by (auto simp: setitem_def and_then_Inr Let_def split: list.splits if_splits)
  with c' show ?thesis by blast
qed

lemma handle_buffer_frame:
  assumes "handle_buffer c raw k = Inr c'"
  shows "\<exists>d d'. data c = Some d \<and> c' = c\<lparr>data := Some d'\<rparr> \<and> shape d' = shape d"
proof -
  from assms obtain buf where
    r1: "and_then (process_buffer c buf) (\<lambda>pb.
       case data c of
         None \<Rightarrow> Inl TypeError
       | Some d \<Rightarrow>
           (case k of
              None \<Rightarrow> sum_buffer c d pb
            | Some k \<Rightarrow> if average_buffers c then sum_buffer c d pb
                        else store_buffer c d k pb)) = Inr c'"
    unfolding handle_buffer_def and_then_Inr by blast
  then obtain pb where
    r2: "(case data c of
         None \<Rightarrow> Inl TypeError
       | Some d \<Rightarrow>
           (case k of
              None \<Rightarrow> sum_buffer c d pb
            | Some k \<Rightarrow> if average_buffers c then sum_buffer c d pb
                        else store_buffer c d k pb)) = Inr c'"
    unfolding and_then_Inr by blast
  then obtain d where d: "data c = Some d" by (cases "data c") simp_all
  with r2 have r3: "(case k of
              None \<Rightarrow> sum_buffer c d pb
            | Some k \<Rightarrow> if average_buffers c then sum_buffer c d pb
                        else store_buffer c d k pb) = Inr c'"
    by simp
  have "sum_buffer c d pb = Inr c' \<or> (\<exists>j. store_buffer c d j pb = Inr c')"
  proof (cases k)
    case None
    with r3 show ?thesis by simp
  next
    case (Some j)
    with r3 show ?thesis by (cases "average_buffers c") auto
  qed
  then show ?thesis
  proof
    assume "sum_buffer c d pb = Inr c'"
    from sum_buffer_frame [OF this] d show ?thesis by blast
  next
    assume "\<exists>j. store_buffer c d j pb = Inr c'"
    then obtain j where "store_buffer c d j pb = Inr c'" ..
    from store_buffer_frame [OF this] d show ?thesis by blast
  qed
qed

lemma channels_ok_fresh: "channels_ok (fresh v idn sr spr rpb bpa)"
  by (simp add: channels_ok_def fresh_def Let_def)

lemma channels_ok_step:
  assumes "channels_ok c" and "step c e = Inr c'"
  shows "channels_ok c'"
proof (cases e)
  case (SetDemodFrq f)
  with assms(2) have "c' = c\<lparr>demod_frq := Some f\<rparr>" by simp
  with assms(1) show ?thesis by (simp add: channels_ok_def)
next
  case PreStartCapture
  with assms(2) have run: "pre_start_capture c = Inr c'" by simp
  from pre_start_capture_frame [OF run] have same: "same_setup c c'"
    and brsc: "buffer_order c = ''brsc'' \<longrightarrow> buffer_shape c' = Some [records_per_buffer c, samples_per_record c, number_of_channels c]"
    and bcrs: "buffer_order c = ''bcrs'' \<longrightarrow> buffer_shape c' = Some [number_of_channels c, records_per_buffer c, samples_per_record c]"
    and ord: "buffer_order c = ''brsc'' \<or> buffer_order c = ''bcrs''"
    by blast+
  from assms(1) have nc: "number_of_channels c = 2" by (simp add: channels_ok_def)
  from same have eqs: "number_of_channels c' = number_of_channels c" "buffer_order c' = buffer_order c"
    "records_per_buffer c' = records_per_buffer c" "samples_per_record c' = samples_per_record c"
    by (simp_all add: same_setup_def)
  have d: "\<forall>d. data c' = Some d \<longrightarrow> shape d \<noteq> [] \<and> last (shape d) = 2"
    using pre_start_capture_data [OF run] assms(1) nc by (auto simp: channels_ok_def)
  have b: "\<forall>bs. buffer_shape c' = Some bs \<longrightarrow>
           (buffer_order c' = ''brsc'' \<and> bs = [records_per_buffer c', samples_per_record c', 2])
           \<or> (buffer_order c' = ''bcrs'' \<and> bs = [2, records_per_buffer c', samples_per_record c'])"
    unfolding eqs using brsc bcrs ord nc by auto
  from nc eqs(1) b d show ?thesis by (simp add: channels_ok_def)
next
  case (HandleBuffer raw k)
  with assms(2) have "handle_buffer c raw k = Inr c'" by simp
  from handle_buffer_frame [OF this] obtain d d' where "data c = Some d"
    and "c' = c\<lparr>data := Some d'\<rparr>" and "shape d' = shape d" by blast
  with assms(1) show ?thesis by (simp add: channels_ok_def)
next
  case DataShape
  with assms(2) obtain shp where "data_shape c = Inr (shp, c')"
    by (auto simp: and_then_Inr)
  from data_shape_frame [OF this] have "same_setup c c'" "data c' = data c"
    "buffer_shape c' = buffer_shape c" by blast+
  with assms(1) show ?thesis by (simp add: channels_ok_def same_setup_def)
qed

lemma channels_ok_run:
  "channels_ok c \<Longrightarrow> run c evs = Inr c' \<Longrightarrow> channels_ok c'"
proof (induction evs arbitrary: c)
  case Nil
  then show ?case by simp
next
  case (Cons e evs)
  from Cons.prems(2) obtain c1 where s: "step c e = Inr c1" and r: "run c1 evs = Inr c'"
    by (auto simp: and_then_Inr)
  from channels_ok_step [OF Cons.prems(1) s] r show ?case by (rule Cons.IH)
qed

lemma post_acquire_channels:
  assumes "channels_ok c" and "post_acquire c = Inr out"
  shows "last (result_shape out) = 2"
proof (cases "is_demod (variant c)")
  case False
  with assms(2) obtain x where x: "post_acquire_real c = Inr x" and out: "out = Reals x"
    by (auto simp: post_acquire_def and_then_Inr)
  from x obtain d where d: "data c = Some d" and "shape x = shape d"
    by (auto simp: post_acquire_real_def map_array_def split: option.splits)
  with assms(1) out show ?thesis by (simp add: channels_ok_def result_shape_def)
next
  case True
  have nc: "number_of_channels c = 2" using assms(1) by (simp add: channels_ok_def)
  show ?thesis
  proof (cases "variant c = AvgIQ \<or> variant c = AvgRecIQ")
    case False
    with True assms(2) obtain x z where "demodulate c x = Inr z" and out: "out = Complexes z"
      by (auto simp: post_acquire_def and_then_Inr)
    from demodulate_shape [OF this(1)] nc out show ?thesis by (simp add: result_shape_def)
  next
    case iq: True
    with True assms(2) obtain x z m where z: "demodulate c x = Inr z"
      and m: "mean_axis 1 z = Inr m" and out: "out = Complexes m"
      by (auto simp: post_acquire_def and_then_Inr)
    from demodulate_shape [OF z] iq nc have len: "length (shape z) = 3" and la: "last (shape z) = 2"
      by auto
    from mean_axis_shape(1) [OF m] have "shape m = take 1 (shape z) @ drop (Suc 1) (shape z)" .
    moreover have "Suc 1 < length (shape z)" using len by simp
    ultimately have "last (shape m) = last (shape z)" using last_remove_axis(1) by metis
    with la out show ?thesis by (simp add: result_shape_def)
  qed
qed

text \<open>
  C10. Every constructor sets \<open>number_of_channels\<close> to 2 and no method changes it: for
  a controller of any class, built for any card and any hardware parameters, and after any
  sequence of calls that raise no exception, the number of channels is 2; the buffer shape,
  once set, is (records, samples, 2) in the order \<open>brsc\<close> and (2, records, samples) in
  the order \<open>bcrs\<close>; every tuple \<open>data_shape\<close> returns ends in 2; and every array
  \<open>post_acquire\<close> returns has a last axis of length 2.
\<close>

theorem channels_always_two:
  assumes "init v idn sr spr rpb bpa = Inr c0" and "run c0 evs = Inr c"
  shows "number_of_channels c0 = 2 \<and> number_of_channels c = 2
       \<and> (\<forall>bs. buffer_shape c = Some bs \<longrightarrow>
             (buffer_order c = ''brsc'' \<and> bs = [records_per_buffer c, samples_per_record c, 2])
             \<or> (buffer_order c = ''bcrs'' \<and> bs = [2, records_per_buffer c, samples_per_record c]))
       \<and> (\<forall>shp c'. data_shape c = Inr (shp, c') \<longrightarrow> shp \<noteq> [] \<and> last shp = 2)
       \<and> (\<forall>out. post_acquire c = Inr out \<longrightarrow> last (result_shape out) = 2)"
proof -
  from assms(1) have c0: "c0 = fresh v idn sr spr rpb bpa"
    by (auto simp: init_def split: if_splits)
  then have ok0: "channels_ok c0" by (simp add: channels_ok_fresh)
  from channels_ok_run [OF ok0 assms(2)] have ok: "channels_ok c" .
  have "shp \<noteq> [] \<and> last shp = 2" if "data_shape c = Inr (shp, c')" for shp c'
    using data_shape_last [OF that] ok by (simp add: channels_ok_def)
  moreover have "last (result_shape out) = 2" if "post_acquire c = Inr out" for out
    using ok that by (rule post_acquire_channels)
  ultimately show ?thesis using ok ok0
    by (simp add: channels_ok_def)
qed

theorem channels_always_two_witness:
  "\<exists>c0 c out. init AvgDemod None 1 1 1 2 = Inr c0
      \<and> run c0 [SetDemodFrq 1, PreStartCapture, HandleBuffer [0xFFF0, 0xFFF0] (Some 0), DataShape] = Inr c
      \<and> number_of_channels c = 2 \<and> buffer_shape c = Some [1, 1, 2]
      \<and> post_acquire c = Inr out \<and> last (result_shape out) = 2"
proof -
  let ?evs = "[SetDemodFrq 1, PreStartCapture, HandleBuffer [0xFFF0, 0xFFF0] (Some 0), DataShape]"
  have i: "init AvgDemod None 1 1 1 2 = Inr (fresh AvgDemod None 1 1 1 2)"
    by (simp add: init_def fresh_def)
  obtain c where r: "run (fresh AvgDemod None 1 1 1 2) ?evs = Inr c"
    and p: "\<exists>out. post_acquire c = Inr out"
    by (simp add: np_defs ctl_defs)
  from p obtain out where o: "post_acquire c = Inr out" ..
  from channels_always_two [OF i r]
  have "number_of_channels c = 2"
    and bs: "\<forall>bs. buffer_shape c = Some bs \<longrightarrow>
             (buffer_order c = ''brsc'' \<and> bs = [records_per_buffer c, samples_per_record c, 2])
             \<or> (buffer_order c = ''bcrs'' \<and> bs = [2, records_per_buffer c, samples_per_record c])"
    and "\<forall>out. post_acquire c = Inr out \<longrightarrow> last (result_shape out) = 2"
    by blast+
  moreover obtain bs where b: "buffer_shape c = Some bs" and "buffer_order c = ''brsc''"
    and "records_per_buffer c = 1" and "samples_per_record c = 1"
    using r by (auto simp: np_defs ctl_defs)
  ultimately have "number_of_channels c = 2 \<and> buffer_shape c = Some [1, 1, 2]
      \<and> post_acquire c = Inr out \<and> last (result_shape out) = 2"
    using o by auto
  with i r show ?thesis by blast
qed

end
